theory Spec2Isabelle
  imports Main
begin

section \<open>The playlist of reproductor\_musica\_python: a circular doubly-linked list\<close>

text \<open>
  The development embeds \<^verbatim>\<open>src/models/node.py\<close> (class \<^verbatim>\<open>NodoCancion\<close>) and
  \<^verbatim>\<open>src/models/playlist.py\<close> (class \<^verbatim>\<open>ListaReproduccion\<close>).

  Python objects are mutable and shared, and several properties of the playlist are about
  the identity of nodes, so the objects live in an explicit store: the list of all
  \<^verbatim>\<open>NodoCancion\<close> objects created so far. A reference is the position of the object in
  that list; creating an object appends it, so a new object has an identity no older
  object has. \<^verbatim>\<open>NodoCancion\<close> defines neither \<^verbatim>\<open>__eq__\<close> nor \<^verbatim>\<open>__ne__\<close>; Python's
  \<^verbatim>\<open>==\<close> and \<^verbatim>\<open>!=\<close> on nodes therefore compare identities, which is equality of
  references here.
\<close>

subsection \<open>Data: \<^verbatim>\<open>NodoCancion\<close> and \<^verbatim>\<open>ListaReproduccion\<close>\<close>

type_synonym ref = nat

record NodoCancion =
  titulo :: string
  artista :: string
  duracion :: int
  ruta :: string
  anterior :: ref
  siguiente :: ref

text \<open>
  The state: the object store \<open>nodos\<close> and the three attributes of the one
  \<^verbatim>\<open>ListaReproduccion\<close> object. \<open>None\<close> is Python's \<^verbatim>\<open>None\<close>.
\<close>

record ListaReproduccion =
  nodos :: "NodoCancion list"
  actual :: "ref option"
  primero :: "ref option"
  tamanio :: int

text \<open>
  The only exception the methods can raise is the \<^verbatim>\<open>AttributeError\<close> of reading an
  attribute of \<^verbatim>\<open>None\<close>. In every method it is raised before the first assignment to
  a live object, so the state after it is the state before the call.
\<close>

datatype error = AttributeError

text \<open>\<^verbatim>\<open>NodoCancion.__init__\<close>: the new object at reference \<open>yo\<close> (Python's \<^verbatim>\<open>self\<close>).\<close>

definition NodoCancion_init :: "ref \<Rightarrow> string \<Rightarrow> string \<Rightarrow> int \<Rightarrow> string \<Rightarrow> NodoCancion" where
  "NodoCancion_init yo t a d r =
     \<lparr>titulo = t, artista = a, duracion = d, ruta = r, anterior = yo, siguiente = yo\<rparr>"

text \<open>The assignments \<^verbatim>\<open>n.siguiente = v\<close> and \<^verbatim>\<open>n.anterior = v\<close> on the store.\<close>

definition set_siguiente :: "ref \<Rightarrow> ref \<Rightarrow> NodoCancion list \<Rightarrow> NodoCancion list" where
  "set_siguiente n v h = h[n := (h ! n)\<lparr>siguiente := v\<rparr>]"

definition set_anterior :: "ref \<Rightarrow> ref \<Rightarrow> NodoCancion list \<Rightarrow> NodoCancion list" where
  "set_anterior n v h = h[n := (h ! n)\<lparr>anterior := v\<rparr>]"

text \<open>\<^verbatim>\<open>ListaReproduccion.__init__\<close>, before any node exists.\<close>

definition vacia :: ListaReproduccion where
  "vacia = \<lparr>nodos = [], actual = None, primero = None, tamanio = 0\<rparr>"

subsection \<open>The methods\<close>

definition esta_vacia :: "ListaReproduccion \<Rightarrow> bool" where
  "esta_vacia s = (tamanio s = 0)"

text \<open>
  \<^verbatim>\<open>agregar_cancion\<close>. The node is created first (line 60); with a non-empty list the
  four assignments of lines 74--78 follow in the source's order, each reading the store
  the previous one left.
\<close>

definition agregar_cancion ::
  "string \<Rightarrow> string \<Rightarrow> int \<Rightarrow> string \<Rightarrow> ListaReproduccion \<Rightarrow> error + (ref \<times> ListaReproduccion)" where
  "agregar_cancion t a d r s =
     (let nuevo_nodo = length (nodos s);
          h0 = nodos s @ [NodoCancion_init nuevo_nodo t a d r]
      in if esta_vacia s then
           Inr (nuevo_nodo,
                s\<lparr>nodos := h0, actual := Some nuevo_nodo, primero := Some nuevo_nodo,
                  tamanio := tamanio s + 1\<rparr>)
         else
           (case primero s of
              None \<Rightarrow> Inl AttributeError
            | Some p \<Rightarrow>
                let ultimo_nodo = anterior (h0 ! p);
                    h1 = set_siguiente nuevo_nodo p h0;
                    h2 = set_anterior nuevo_nodo ultimo_nodo h1;
                    h3 = set_siguiente ultimo_nodo nuevo_nodo h2;
                    h4 = set_anterior p nuevo_nodo h3
                in Inr (nuevo_nodo, s\<lparr>nodos := h4, tamanio := tamanio s + 1\<rparr>)))"

text \<open>
  \<^verbatim>\<open>eliminar_cancion_actual\<close>. Line 109 compares \<^verbatim>\<open>self.actual == self.primero\<close>
  (identity, or both \<^verbatim>\<open>None\<close>); line 110 then reads \<^verbatim>\<open>self.primero.siguiente\<close>. Lines
  113--116 read \<^verbatim>\<open>self.actual\<close>'s links again after each assignment.
\<close>

definition eliminar_cancion_actual ::
  "ListaReproduccion \<Rightarrow> error + (ref option \<times> ListaReproduccion)" where
  "eliminar_cancion_actual s =
     (if esta_vacia s then Inr (None, s)
      else
        let nodo_eliminado = actual s in
        if tamanio s = 1 then
          Inr (nodo_eliminado, s\<lparr>actual := None, primero := None, tamanio := tamanio s - 1\<rparr>)
        else
          (case actual s of
             None \<Rightarrow> Inl AttributeError
           | Some a \<Rightarrow>
               let h = nodos s;
                   primero' = (if actual s = primero s then Some (siguiente (h ! a)) else primero s);
                   h1 = set_siguiente (anterior (h ! a)) (siguiente (h ! a)) h;
                   h2 = set_anterior (siguiente (h1 ! a)) (anterior (h1 ! a)) h1
               in Inr (nodo_eliminado,
                       s\<lparr>nodos := h2, actual := Some (siguiente (h2 ! a)), primero := primero',
                         tamanio := tamanio s - 1\<rparr>)))"

definition siguiente_cancion :: "ListaReproduccion \<Rightarrow> error + (ref option \<times> ListaReproduccion)" where
  "siguiente_cancion s =
     (if esta_vacia s then Inr (None, s)
      else case actual s of
             None \<Rightarrow> Inl AttributeError
           | Some a \<Rightarrow>
               let a' = siguiente (nodos s ! a) in Inr (Some a', s\<lparr>actual := Some a'\<rparr>))"

definition cancion_anterior :: "ListaReproduccion \<Rightarrow> error + (ref option \<times> ListaReproduccion)" where
  "cancion_anterior s =
     (if esta_vacia s then Inr (None, s)
      else case actual s of
             None \<Rightarrow> Inl AttributeError
           | Some a \<Rightarrow>
               let a' = anterior (nodos s ! a) in Inr (Some a', s\<lparr>actual := Some a'\<rparr>))"

definition obtener_cancion_actual :: "ListaReproduccion \<Rightarrow> ref option" where
  "obtener_cancion_actual s = actual s"

text \<open>
  The loop of \<^verbatim>\<open>obtener_todas_las_canciones\<close> (lines 184--186). Nothing in the loop
  bounds it: on a store whose \<^verbatim>\<open>siguiente\<close> links never lead back to \<^verbatim>\<open>self.primero\<close>
  it runs forever, which is the value \<open>None\<close> here.
\<close>

partial_function (option) recorrer ::
  "NodoCancion list \<Rightarrow> ref \<Rightarrow> ref \<Rightarrow> ref list \<Rightarrow> ref list option" where
  "recorrer h p nodo canciones =
     (if nodo \<noteq> p then recorrer h p (siguiente (h ! nodo)) (canciones @ [nodo])
      else Some canciones)"

declare recorrer.simps [code]

definition obtener_todas_las_canciones :: "ListaReproduccion \<Rightarrow> (error + ref list) option" where
  "obtener_todas_las_canciones s =
     (if esta_vacia s then Some (Inr [])
      else case primero s of
             None \<Rightarrow> Some (Inl AttributeError)
           | Some p \<Rightarrow> map_option Inr (recorrer (nodos s) p (siguiente (nodos s ! p)) [p]))"

definition len :: "ListaReproduccion \<Rightarrow> int" where
  "len s = tamanio s"

subsection \<open>Sequences of calls\<close>

text \<open>
  A call of one of the seven public methods. \<open>paso\<close> performs it and keeps the state it
  leaves; the three queries \<^verbatim>\<open>obtener_cancion_actual\<close>, \<^verbatim>\<open>__len__\<close> and
  \<^verbatim>\<open>obtener_todas_las_canciones\<close> assign to no attribute, so the state after them is the
  state before. \<open>None\<close> is a call that does not return, \<open>Some (Inl e)\<close> one that raises.
  \<open>correr\<close> performs a list of calls from left to right and stops at the first that
  raises or does not return.
\<close>

datatype llamada =
    Agregar string string int string | Eliminar | Siguiente | Anterior | Actual | Contar | Todas

fun paso :: "llamada \<Rightarrow> ListaReproduccion \<Rightarrow> (error + ListaReproduccion) option" where
  "paso (Agregar t a d r) s = Some (map_sum id snd (agregar_cancion t a d r s))"
| "paso Eliminar s = Some (map_sum id snd (eliminar_cancion_actual s))"
| "paso Siguiente s = Some (map_sum id snd (siguiente_cancion s))"
| "paso Anterior s = Some (map_sum id snd (cancion_anterior s))"
| "paso Actual s = map_option (\<lambda>_. Inr s) (Some (obtener_cancion_actual s))"
| "paso Contar s = map_option (\<lambda>_. Inr s) (Some (len s))"
| "paso Todas s = map_option (map_sum id (\<lambda>_. s)) (obtener_todas_las_canciones s)"

fun correr :: "llamada list \<Rightarrow> ListaReproduccion \<Rightarrow> (error + ListaReproduccion) option" where
  "correr [] s = Some (Inr s)"
| "correr (c # cs) s =
     (case paso c s of
        None \<Rightarrow> None
      | Some (Inl e) \<Rightarrow> Some (Inl e)
      | Some (Inr s') \<Rightarrow> correr cs s')"

text \<open>
  \<open>agregar_todas\<close> calls \<^verbatim>\<open>agregar_cancion\<close> once for each tuple of a list, in order,
  and collects the nodes the calls return.
\<close>

fun agregar_todas ::
  "(string \<times> string \<times> int \<times> string) list \<Rightarrow> ListaReproduccion \<Rightarrow>
   error + (ref list \<times> ListaReproduccion)" where
  "agregar_todas [] s = Inr ([], s)"
| "agregar_todas ((t, a, d, r) # cs) s =
     (case agregar_cancion t a d r s of
        Inl e \<Rightarrow> Inl e
      | Inr (n, s') \<Rightarrow>
          (case agregar_todas cs s' of
             Inl e \<Rightarrow> Inl e
           | Inr (ms, s'') \<Rightarrow> Inr (n # ms, s'')))"

text \<open>\<open>repetir k f\<close> calls the method \<open>f\<close> \<open>k\<close> times in a row, dropping the results.\<close>

fun repetir ::
  "nat \<Rightarrow> (ListaReproduccion \<Rightarrow> error + (ref option \<times> ListaReproduccion)) \<Rightarrow> ListaReproduccion \<Rightarrow>
   error + ListaReproduccion" where
  "repetir 0 f s = Inr s"
| "repetir (Suc k) f s = (case f s of Inl e \<Rightarrow> Inl e | Inr (_, s') \<Rightarrow> repetir k f s')"

text \<open>\<open>seguir h k n\<close> is the node reached from \<open>n\<close> by reading \<^verbatim>\<open>.siguiente\<close> \<open>k\<close> times.\<close>

primrec seguir :: "NodoCancion list \<Rightarrow> nat \<Rightarrow> ref \<Rightarrow> ref" where
  "seguir h 0 n = n"
| "seguir h (Suc k) n = seguir h k (siguiente (h ! n))"

text \<open>The four metadata attributes of a node.\<close>

definition datos :: "NodoCancion \<Rightarrow> string \<times> string \<times> int \<times> string" where
  "datos n = (titulo n, artista n, duracion n, ruta n)"

subsection \<open>The ring\<close>

text \<open>
  \<open>enlace h x y\<close>: in the store \<open>h\<close> the node \<open>y\<close> is the \<^verbatim>\<open>siguiente\<close> of \<open>x\<close> and \<open>x\<close>
  is the \<^verbatim>\<open>anterior\<close> of \<open>y\<close>. \<open>enlazados h xs\<close>: every two neighbours of the list \<open>xs\<close>
  are linked so. \<open>ciclo h xs\<close> closes the chain from the last node back to the first.
\<close>

definition enlace :: "NodoCancion list \<Rightarrow> ref \<Rightarrow> ref \<Rightarrow> bool" where
  "enlace h x y = (siguiente (h ! x) = y \<and> anterior (h ! y) = x)"

fun enlazados :: "NodoCancion list \<Rightarrow> ref list \<Rightarrow> bool" where
  "enlazados h (x # y # zs) = (enlace h x y \<and> enlazados h (y # zs))"
| "enlazados h _ = True"

definition ciclo :: "NodoCancion list \<Rightarrow> ref list \<Rightarrow> bool" where
  "ciclo h zs = (enlazados h zs \<and> enlace h (last zs) (hd zs))"

text \<open>
  \<open>anillo s ns\<close>: the state \<open>s\<close> is a playlist whose nodes are, in chronological order,
  the distinct allocated nodes \<open>ns\<close>: \<^verbatim>\<open>tamanio\<close> is their number; the empty playlist has
  \<^verbatim>\<open>actual\<close> and \<^verbatim>\<open>primero\<close> \<^verbatim>\<open>None\<close>; otherwise \<^verbatim>\<open>primero\<close> is the first of \<open>ns\<close>,
  \<^verbatim>\<open>actual\<close> is one of them, and \<open>ns\<close> is linked into a cycle in both directions.
  These are the invariants of the data model (section 3 of the specification).
\<close>

definition anillo :: "ListaReproduccion \<Rightarrow> ref list \<Rightarrow> bool" where
  "anillo s ns =
     (tamanio s = int (length ns) \<and> distinct ns \<and> list_all (\<lambda>a. a < length (nodos s)) ns \<and>
      (case ns of
         [] \<Rightarrow> actual s = None \<and> primero s = None
       | p # _ \<Rightarrow> primero s = Some p \<and> (case actual s of None \<Rightarrow> False | Some c \<Rightarrow> c \<in> set ns) \<and>
                  enlazados (nodos s) ns \<and> enlace (nodos s) (last ns) p))"

text \<open>
  The store after \<^verbatim>\<open>agregar_cancion\<close> on a playlist with nodes \<open>ns\<close>, and the store after
  \<^verbatim>\<open>eliminar_cancion_actual\<close> has unlinked the node \<open>a\<close>, as the methods compute them.
\<close>

definition agregado ::
  "string \<Rightarrow> string \<Rightarrow> int \<Rightarrow> string \<Rightarrow> ListaReproduccion \<Rightarrow> ref list \<Rightarrow> NodoCancion list" where
  "agregado t a d r s ns = (let nuevo = length (nodos s) in
      set_anterior (hd ns) nuevo (set_siguiente (last ns) nuevo (set_anterior nuevo (last ns)
        (set_siguiente nuevo (hd ns) (nodos s @ [NodoCancion_init nuevo t a d r])))))"

definition empalmado :: "NodoCancion list \<Rightarrow> ref \<Rightarrow> NodoCancion list" where
  "empalmado h a = set_anterior (siguiente (h ! a)) (anterior (h ! a))
                     (set_siguiente (anterior (h ! a)) (siguiente (h ! a)) h)"

subsection \<open>Example states\<close>

text \<open>
  The playlist of the specification's scenario after appending A (125 s), B (200 s) and
  C (61 s), and a playlist of two distinct nodes that carry the same metadata.
\<close>

definition tres_canciones :: ListaReproduccion where
  "tres_canciones =
     \<lparr>nodos =
        [\<lparr>titulo = ''A'', artista = ''x'', duracion = 125, ruta = ''a.mp3'', anterior = 2, siguiente = 1\<rparr>,
         \<lparr>titulo = ''B'', artista = ''x'', duracion = 200, ruta = ''b.mp3'', anterior = 0, siguiente = 2\<rparr>,
         \<lparr>titulo = ''C'', artista = ''x'', duracion = 61, ruta = ''c.mp3'', anterior = 1, siguiente = 0\<rparr>],
      actual = Some 0, primero = Some 0, tamanio = 3\<rparr>"

definition repetidas :: ListaReproduccion where
  "repetidas =
     \<lparr>nodos =
        [\<lparr>titulo = ''A'', artista = ''x'', duracion = 125, ruta = ''a.mp3'', anterior = 1, siguiente = 1\<rparr>,
         \<lparr>titulo = ''A'', artista = ''x'', duracion = 125, ruta = ''a.mp3'', anterior = 0, siguiente = 0\<rparr>],
      actual = Some 0, primero = Some 0, tamanio = 2\<rparr>"

text \<open>A sequence of calls that uses every method.\<close>

definition ejemplo_llamadas :: "llamada list" where
  "ejemplo_llamadas =
     [Agregar ''A'' ''x'' 125 ''a.mp3'', Agregar ''B'' ''x'' 200 ''b.mp3'', Todas,
      Agregar ''C'' ''x'' 61 ''c.mp3'', Siguiente, Contar, Eliminar, Anterior, Actual]"

text \<open>
  An emptied playlist: the state after one \<^verbatim>\<open>agregar_cancion\<close> and one
  \<^verbatim>\<open>eliminar_cancion_actual\<close>. It is empty, and its store still holds the removed node.
\<close>

definition vaciada :: ListaReproduccion where
  "vaciada =
     \<lparr>nodos =
        [\<lparr>titulo = ''Z'', artista = ''w'', duracion = 9, ruta = ''z.mp3'', anterior = 0, siguiente = 0\<rparr>],
      actual = None, primero = None, tamanio = 0\<rparr>"

section \<open>The store and chains of links\<close>

lemma length_set_siguiente [simp]: "length (set_siguiente n v h) = length h"
  by (simp add: set_siguiente_def)

lemma length_set_anterior [simp]: "length (set_anterior n v h) = length h"
  by (simp add: set_anterior_def)

lemma siguiente_set_siguiente:
  "siguiente (set_siguiente n v h ! x) = (if x = n \<and> n < length h then v else siguiente (h ! x))"
  by (cases "n < length h") (auto simp: set_siguiente_def nth_list_update list_update_beyond)

lemma anterior_set_siguiente [simp]: "anterior (set_siguiente n v h ! x) = anterior (h ! x)"
  by (cases "n < length h") (auto simp: set_siguiente_def nth_list_update list_update_beyond)

lemma anterior_set_anterior:
  "anterior (set_anterior n v h ! x) = (if x = n \<and> n < length h then v else anterior (h ! x))"
  by (cases "n < length h") (auto simp: set_anterior_def nth_list_update list_update_beyond)

lemma siguiente_set_anterior [simp]: "siguiente (set_anterior n v h ! x) = siguiente (h ! x)"
  by (cases "n < length h") (auto simp: set_anterior_def nth_list_update list_update_beyond)

lemma set_siguiente_otro: "x \<noteq> n \<Longrightarrow> set_siguiente n v h ! x = h ! x"
  by (simp add: set_siguiente_def)

lemma set_anterior_otro: "x \<noteq> n \<Longrightarrow> set_anterior n v h ! x = h ! x"
  by (simp add: set_anterior_def)

lemma enlazados_snoc: "xs \<noteq> [] \<Longrightarrow> enlazados h (xs @ [y]) = (enlazados h xs \<and> enlace h (last xs) y)"
  by (induction h xs rule: enlazados.induct) auto

lemma enlazados_append:
  "enlazados h (xs @ y # ys) = (enlazados h (xs @ [y]) \<and> enlazados h (y # ys))"
  by (induction h xs rule: enlazados.induct) auto

lemma enlazados_frame:
  "enlazados h xs \<Longrightarrow> \<forall>x\<in>set (butlast xs). siguiente (h' ! x) = siguiente (h ! x) \<Longrightarrow>
   \<forall>x\<in>set (tl xs). anterior (h' ! x) = anterior (h ! x) \<Longrightarrow> enlazados h' xs"
  by (induction h xs rule: enlazados.induct) (auto simp: enlace_def)

lemma enlazados_nth:
  "enlazados h xs \<Longrightarrow> Suc i < length xs \<Longrightarrow> enlace h (xs ! i) (xs ! Suc i)"
proof (induction h xs arbitrary: i rule: enlazados.induct)
  case (1 h x y zs)
  then show ?case by (cases i) auto
qed auto

lemma anillo_ConsD:
  assumes "anillo s ns" "ns \<noteq> []"
  shows "primero s = Some (hd ns)" "\<exists>c\<in>set ns. actual s = Some c"
    "enlazados (nodos s) ns" "enlace (nodos s) (last ns) (hd ns)"
    "distinct ns" "\<forall>a\<in>set ns. a < length (nodos s)" "tamanio s = int (length ns)"
  using assms
  by (auto simp: anillo_def enlazados_snoc list_all_iff split: list.splits option.splits)

lemma anillo_intro:
  assumes "ns \<noteq> []" "primero s = Some (hd ns)" "actual s = Some c" "c \<in> set ns"
    "enlazados (nodos s) ns" "enlace (nodos s) (last ns) (hd ns)"
    "distinct ns" "\<forall>a\<in>set ns. a < length (nodos s)" "tamanio s = int (length ns)"
  shows "anillo s ns"
  using assms
  by (cases ns) (auto simp: anillo_def enlazados_snoc list_all_iff)

lemma agregar_no_vacia:
  assumes "anillo s ns" "ns \<noteq> []"
  shows "agregar_cancion t a d r s =
     Inr (length (nodos s), s\<lparr>nodos := agregado t a d r s ns, tamanio := tamanio s + 1\<rparr>)"
proof -
  note D = anillo_ConsD[OF assms]
  have "hd ns < length (nodos s)" using D(6) assms(2) by simp
  moreover have "anterior (nodos s ! hd ns) = last ns" using D(4) by (simp add: enlace_def)
  moreover have "tamanio s \<noteq> 0" using D(7) assms(2) by simp
  ultimately show ?thesis
    using D(1) by (simp add: agregar_cancion_def esta_vacia_def agregado_def Let_def nth_append)
qed

lemma agregado_props:
  fixes t a d r
  assumes "anillo s ns" "ns \<noteq> []"
  defines "H \<equiv> agregado t a d r s ns" and "n \<equiv> length (nodos s)"
  shows "length H = Suc n"
    "siguiente (H ! n) = hd ns" "anterior (H ! n) = last ns"
    "x < n \<Longrightarrow> siguiente (H ! x) = (if x = last ns then n else siguiente (nodos s ! x))"
    "x < n \<Longrightarrow> anterior (H ! x) = (if x = hd ns then n else anterior (nodos s ! x))"
proof -
  note D = anillo_ConsD[OF assms(1,2)]
  have b: "hd ns < n" "last ns < n" using D(6) assms(2) by (simp_all add: n_def)
  show "length H = Suc n" by (simp add: H_def agregado_def n_def Let_def)
  show "siguiente (H ! n) = hd ns" using b 
    by (simp add: H_def agregado_def n_def[symmetric] Let_def siguiente_set_siguiente)
  show "anterior (H ! n) = last ns" using b 
    by (simp add: H_def agregado_def n_def[symmetric] Let_def anterior_set_anterior)
  show "x < n \<Longrightarrow> siguiente (H ! x) = (if x = last ns then n else siguiente (nodos s ! x))"
    using b
    by (simp add: H_def agregado_def n_def[symmetric] Let_def siguiente_set_siguiente nth_append)
  show "x < n \<Longrightarrow> anterior (H ! x) = (if x = hd ns then n else anterior (nodos s ! x))"
    using b
    by (simp add: H_def agregado_def n_def[symmetric] Let_def anterior_set_anterior nth_append)
qed

lemma enlazados_append2:
  "xs \<noteq> [] \<Longrightarrow> ys \<noteq> [] \<Longrightarrow>
   enlazados h (xs @ ys) = (enlazados h xs \<and> enlace h (last xs) (hd ys) \<and> enlazados h ys)"
proof -
  assume a: "xs \<noteq> []" "ys \<noteq> []"
  then obtain y ys' where ys: "ys = y # ys'" by (cases ys) auto
  show ?thesis using a(1) unfolding ys
    by (subst enlazados_append) (auto simp: enlazados_snoc)
qed

lemma ciclo_rotar: "ciclo h (xs @ ys) \<Longrightarrow> ciclo h (ys @ xs)"
  by (cases "xs = []"; cases "ys = []") (auto simp: ciclo_def enlazados_append2)

lemma anillo_ciclo: "anillo s ns \<Longrightarrow> ns \<noteq> [] \<Longrightarrow> ciclo (nodos s) ns"
  by (simp add: ciclo_def anillo_ConsD)

lemma ciclo_en:
  assumes "ciclo h ns" "a \<in> set ns"
  shows "siguiente (h ! a) \<in> set ns \<and> anterior (h ! siguiente (h ! a)) = a \<and>
         anterior (h ! a) \<in> set ns \<and> siguiente (h ! anterior (h ! a)) = a"
proof -
  from assms(2) obtain pre post where ns: "ns = pre @ a # post" by (auto simp: in_set_conv_decomp)
  define W where "W = post @ pre"
  from assms(1) have c: "ciclo h (a # W)"
    unfolding ns W_def using ciclo_rotar[of h pre "a # post"] by simp
  have sub: "set W \<subseteq> set ns" by (auto simp: W_def ns)
  show ?thesis
  proof (cases "W = []")
    case True
    with c show ?thesis by (auto simp: ns ciclo_def enlace_def)
  next
    case False
    then have "hd W \<in> set W" "last W \<in> set W" by simp_all
    with sub have m: "hd W \<in> set ns" "last W \<in> set ns" by auto
    from c False have "enlace h a (hd W)" "enlace h (last W) a"
      by (cases W; auto simp: ciclo_def)+
    with m show ?thesis by (auto simp: enlace_def)
  qed
qed

lemma recorrer_cadena:
  "enlazados h (x # ys @ [p]) \<Longrightarrow> p \<notin> set ys \<Longrightarrow>
   recorrer h p (siguiente (h ! x)) acc = Some (acc @ ys)"
proof (induction ys arbitrary: x acc)
  case Nil
  then show ?case by (simp add: enlace_def recorrer.simps)
next
  case (Cons y ys)
  from Cons.prems have s: "siguiente (h ! x) = y" and yp: "y \<noteq> p"
    and rest: "enlazados h (y # ys @ [p])" "p \<notin> set ys"
    by (auto simp: enlace_def)
  have "recorrer h p y acc = recorrer h p (siguiente (h ! y)) (acc @ [y])"
    using yp by (subst recorrer.simps) simp
  also have "\<dots> = Some ((acc @ [y]) @ ys)" by (rule Cons.IH[OF rest])
  finally show ?case by (simp add: s)
qed

lemma anillo_todas: "anillo s ns \<Longrightarrow> obtener_todas_las_canciones s = Some (Inr ns)"
proof (cases ns)
  case Nil
  assume "anillo s ns"
  with Nil show ?thesis by (simp add: anillo_def obtener_todas_las_canciones_def esta_vacia_def)
next
  case (Cons p rest)
  assume a: "anillo s ns"
  have ne: "ns \<noteq> []" using Cons by simp
  note D = anillo_ConsD[OF a ne]
  have "hd ns = p" using Cons by simp
  then have "enlazados (nodos s) (ns @ [p])" using D(3,4) enlazados_snoc[OF ne, of "nodos s" p] by simp
  then have ch: "enlazados (nodos s) (p # rest @ [p])" unfolding Cons by simp
  have "p \<notin> set rest" using D(5) Cons by simp
  from recorrer_cadena[OF ch this, of "[p]"]
  show ?thesis using D(1,7) Cons
    by (simp add: obtener_todas_las_canciones_def esta_vacia_def)
qed

lemma datos_set_siguiente [simp]: "datos (set_siguiente n v h ! x) = datos (h ! x)"
  by (cases "n < length h") (auto simp: set_siguiente_def nth_list_update list_update_beyond datos_def)

lemma datos_set_anterior [simp]: "datos (set_anterior n v h ! x) = datos (h ! x)"
  by (cases "n < length h") (auto simp: set_anterior_def nth_list_update list_update_beyond datos_def)

lemma distinct_last_butlast: "distinct xs \<Longrightarrow> xs \<noteq> [] \<Longrightarrow> last xs \<notin> set (butlast xs)"
  by (induction xs) (auto dest: in_set_butlastD)

lemma distinct_hd_tl: "distinct xs \<Longrightarrow> hd xs \<notin> set (tl xs)"
  by (cases xs) auto

lemma agregar_vacia:
  assumes "anillo s []"
  shows "agregar_cancion t a d r s =
     Inr (length (nodos s),
          s\<lparr>nodos := nodos s @ [NodoCancion_init (length (nodos s)) t a d r],
            actual := Some (length (nodos s)), primero := Some (length (nodos s)),
            tamanio := tamanio s + 1\<rparr>)"
  using assms by (simp add: agregar_cancion_def anillo_def esta_vacia_def Let_def)

lemma anillo_agregar_vacia:
  assumes "anillo s []"
  shows "anillo (s\<lparr>nodos := nodos s @ [NodoCancion_init (length (nodos s)) t a d r],
            actual := Some (length (nodos s)), primero := Some (length (nodos s)),
            tamanio := tamanio s + 1\<rparr>) [length (nodos s)]"
  using assms by (simp add: anillo_def enlace_def NodoCancion_init_def)

lemma anillo_agregar_no_vacia:
  fixes t a d r
  assumes "anillo s ns" "ns \<noteq> []"
  shows "anillo (s\<lparr>nodos := agregado t a d r s ns, tamanio := tamanio s + 1\<rparr>) (ns @ [length (nodos s)])"
proof -
  note D = anillo_ConsD[OF assms]
  note P = agregado_props[OF assms, where t = t and a = a and d = d and r = r]
  define n where "n = length (nodos s)"
  define H where "H = agregado t a d r s ns"
  have lt: "\<forall>x\<in>set ns. x < n" using D(6) by (simp add: n_def)
  have nn: "n \<notin> set ns" using lt by auto
  have hd_in: "hd ns \<in> set ns" and last_in: "last ns \<in> set ns" using assms(2) by simp_all
  have "enlazados H ns"
  proof (rule enlazados_frame[OF D(3)])
    show "\<forall>x\<in>set (butlast ns). siguiente (H ! x) = siguiente (nodos s ! x)"
    proof
      fix x assume x: "x \<in> set (butlast ns)"
      then have "x \<in> set ns" by (rule in_set_butlastD)
      moreover have "x \<noteq> last ns" using x distinct_last_butlast[OF D(5) assms(2)] by auto
      ultimately show "siguiente (H ! x) = siguiente (nodos s ! x)"
        using lt P(4)[of x] by (simp add: H_def n_def)
    qed
    show "\<forall>x\<in>set (tl ns). anterior (H ! x) = anterior (nodos s ! x)"
    proof
      fix x assume x: "x \<in> set (tl ns)"
      then have "x \<in> set ns" using assms(2) by (auto dest: list.set_sel(2))
      moreover have "x \<noteq> hd ns" using x distinct_hd_tl[OF D(5)] by auto
      ultimately show "anterior (H ! x) = anterior (nodos s ! x)"
        using lt P(5)[of x] by (simp add: H_def n_def)
    qed
  qed
  moreover have "enlace H (last ns) n"
    using P(3) P(4)[of "last ns"] lt last_in by (auto simp: enlace_def H_def n_def)
  moreover have "enlace H n (hd ns)"
    using P(2) P(5)[of "hd ns"] lt hd_in by (auto simp: enlace_def H_def n_def)
  ultimately have "enlazados H (ns @ [n])" "enlace H (last (ns @ [n])) (hd (ns @ [n]))"
    using assms(2) by (simp_all add: enlazados_snoc)
  moreover obtain c where "actual s = Some c" "c \<in> set ns" using D(2) by auto
  ultimately show ?thesis
    using assms(2) D(1,5,7) nn lt P(1)
    by (intro anillo_intro[where c = c]) (auto simp: H_def n_def)
qed

lemma eliminar_unica:
  "tamanio s = 1 \<Longrightarrow>
   eliminar_cancion_actual s = Inr (actual s, s\<lparr>actual := None, primero := None, tamanio := 0\<rparr>)"
  by (simp add: eliminar_cancion_actual_def esta_vacia_def)

lemma eliminar_varias:
  assumes "tamanio s \<noteq> 0" "tamanio s \<noteq> 1" "actual s = Some a"
  shows "eliminar_cancion_actual s =
     Inr (Some a,
          s\<lparr>nodos := empalmado (nodos s) a, actual := Some (siguiente (nodos s ! a)),
            primero := (if primero s = Some a then Some (siguiente (nodos s ! a)) else primero s),
            tamanio := tamanio s - 1\<rparr>)"
  using assms
  by (simp add: eliminar_cancion_actual_def esta_vacia_def Let_def empalmado_def
      siguiente_set_siguiente)

lemma anillo_eliminar_unica:
  assumes "anillo s [a]"
  shows "anillo (s\<lparr>actual := None, primero := None, tamanio := 0\<rparr>) []"
  by (simp add: anillo_def)

lemma anillo_eliminar_varias:
  assumes "anillo s (pre @ a # post)" "pre @ post \<noteq> []" "actual s = Some a"
  shows "anillo (s\<lparr>nodos := empalmado (nodos s) a, actual := Some (siguiente (nodos s ! a)),
            primero := (if primero s = Some a then Some (siguiente (nodos s ! a)) else primero s),
            tamanio := tamanio s - 1\<rparr>) (pre @ post)"
proof -
  define ns where "ns = pre @ a # post"
  define W where "W = post @ pre"
  define h where "h = nodos s"
  define H where "H = empalmado h a"
  have ne: "ns \<noteq> []" by (simp add: ns_def)
  note D = anillo_ConsD[OF assms(1)[folded ns_def] ne]
  have Wne: "W \<noteq> []" using assms(2) by (auto simp: W_def)
  have dW: "distinct W" "a \<notin> set W" using D(5) by (auto simp: W_def ns_def)
  have ltW: "\<forall>x\<in>set W. x < length h" using D(6) by (auto simp: W_def ns_def h_def)
  have "ciclo h ns" using anillo_ciclo[OF assms(1)[folded ns_def] ne] by (simp add: h_def)
  then have c: "ciclo h (a # W)" unfolding ns_def W_def using ciclo_rotar[of h pre "a # post"] by simp
  then have sg: "siguiente (h ! a) = hd W" and an: "anterior (h ! a) = last W"
    and ch: "enlazados h W"
    using Wne by (cases W; auto simp: ciclo_def enlace_def)+
  have hdW: "hd W \<in> set W" and lastW: "last W \<in> set W" using Wne by simp_all
  have Hs: "siguiente (H ! x) = (if x = last W then hd W else siguiente (h ! x))" for x
    using lastW ltW by (auto simp: H_def empalmado_def sg an siguiente_set_siguiente)
  have Ha: "anterior (H ! x) = (if x = hd W then last W else anterior (h ! x))" for x
    using hdW ltW by (auto simp: H_def empalmado_def sg an anterior_set_anterior)
  have "enlazados H W"
  proof (rule enlazados_frame[OF ch])
    show "\<forall>x\<in>set (butlast W). siguiente (H ! x) = siguiente (h ! x)"
      using distinct_last_butlast[OF dW(1) Wne] by (auto simp: Hs)
    show "\<forall>x\<in>set (tl W). anterior (H ! x) = anterior (h ! x)"
      using distinct_hd_tl[OF dW(1)] by (auto simp: Ha)
  qed
  moreover have "enlace H (last W) (hd W)" by (simp add: enlace_def Hs Ha)
  ultimately have "ciclo H (post @ pre)" by (simp add: ciclo_def W_def)
  then have cH: "ciclo H (pre @ post)" by (rule ciclo_rotar)
  have pr: "(if primero s = Some a then Some (siguiente (nodos s ! a)) else primero s) = Some (hd (pre @ post))"
  proof (cases pre)
    case Nil
    then show ?thesis using D(1) sg by (simp add: ns_def W_def h_def)
  next
    case (Cons p pre')
    then have "p \<noteq> a" using D(5) by (auto simp: ns_def)
    then show ?thesis using D(1) Cons by (simp add: ns_def)
  qed
  have len: "length H = length h" by (simp add: H_def empalmado_def)
  show ?thesis
  proof (rule anillo_intro[where c = "hd W"])
    show "pre @ post \<noteq> []" by (rule assms(2))
    show "hd W \<in> set (pre @ post)" using hdW by (auto simp: W_def)
    show "actual (s\<lparr>nodos := empalmado (nodos s) a, actual := Some (siguiente (nodos s ! a)),
            primero := (if primero s = Some a then Some (siguiente (nodos s ! a)) else primero s),
            tamanio := tamanio s - 1\<rparr>) = Some (hd W)"
      using sg by (simp add: h_def)
  qed (use cH pr D(5,6,7) len in \<open>auto simp: ciclo_def h_def H_def ns_def\<close>)
qed

lemma anillo_vecinos:
  assumes "anillo s (pre @ a # post)" "pre @ post \<noteq> []"
  shows "siguiente (nodos s ! a) = hd (post @ pre)" "anterior (nodos s ! a) = last (post @ pre)"
proof -
  have "ciclo (nodos s) (pre @ a # post)" using anillo_ciclo[OF assms(1)] by simp
  then have c: "ciclo (nodos s) (a # post @ pre)"
    using ciclo_rotar[of "nodos s" pre "a # post"] by simp
  have "post @ pre \<noteq> []" using assms(2) by auto
  with c show "siguiente (nodos s ! a) = hd (post @ pre)" "anterior (nodos s ! a) = last (post @ pre)"
    by (cases "post @ pre"; auto simp: ciclo_def enlace_def)+
qed

lemma anillo_eliminar:
  assumes "anillo s ns" "ns \<noteq> []"
  shows "\<exists>a. actual s = Some a \<and> a \<in> set ns \<and>
     eliminar_cancion_actual s =
       Inr (Some a,
            if length ns = 1 then s\<lparr>actual := None, primero := None, tamanio := 0\<rparr>
            else s\<lparr>nodos := empalmado (nodos s) a, actual := Some (siguiente (nodos s ! a)),
                   primero := (if primero s = Some a then Some (siguiente (nodos s ! a)) else primero s),
                   tamanio := tamanio s - 1\<rparr>) \<and>
     anillo (if length ns = 1 then s\<lparr>actual := None, primero := None, tamanio := 0\<rparr>
            else s\<lparr>nodos := empalmado (nodos s) a, actual := Some (siguiente (nodos s ! a)),
                   primero := (if primero s = Some a then Some (siguiente (nodos s ! a)) else primero s),
                   tamanio := tamanio s - 1\<rparr>) (remove1 a ns)"
proof -
  note D = anillo_ConsD[OF assms]
  from D(2) obtain a where a: "actual s = Some a" "a \<in> set ns" by auto
  from a(2) obtain pre post where ns: "ns = pre @ a # post" by (auto simp: in_set_conv_decomp)
  have nin: "a \<notin> set pre" using D(5) by (auto simp: ns)
  have rm: "remove1 a ns = pre @ post" using nin by (simp add: ns remove1_append)
  show ?thesis
  proof (cases "length ns = 1")
    case True
    then have ns1: "ns = [a]" by (cases pre; simp add: ns)
    have "tamanio s = 1" using D(7) True by simp
    then show ?thesis
      using a anillo_eliminar_unica[OF assms(1)[unfolded ns1]] True
      by (intro exI[of _ a]) (simp add: eliminar_unica ns1)
  next
    case False
    then have pp: "pre @ post \<noteq> []" by (auto simp: ns)
    have t: "tamanio s \<noteq> 0" "tamanio s \<noteq> 1" using D(7) False assms(2) by auto
    show ?thesis
      using a False anillo_eliminar_varias[OF assms(1)[unfolded ns] pp a(1)]
      by (intro exI[of _ a]) (simp add: eliminar_varias[OF t a(1)] rm)
  qed
qed

lemma anillo_actual:
  assumes "anillo s ns" "c \<in> set ns"
  shows "anillo (s\<lparr>actual := Some c\<rparr>) ns"
  using assms by (cases ns) (auto simp: anillo_def)

lemma anillo_siguiente:
  assumes "anillo s ns" "ns \<noteq> []"
  shows "\<exists>a. actual s = Some a \<and> a \<in> set ns \<and> siguiente (nodos s ! a) \<in> set ns \<and>
     anterior (nodos s ! siguiente (nodos s ! a)) = a \<and>
     siguiente_cancion s =
       Inr (Some (siguiente (nodos s ! a)), s\<lparr>actual := Some (siguiente (nodos s ! a))\<rparr>)"
proof -
  note D = anillo_ConsD[OF assms]
  from D(2) obtain a where a: "actual s = Some a" "a \<in> set ns" by auto
  have "tamanio s \<noteq> 0" using D(7) assms(2) by simp
  then show ?thesis
    using a ciclo_en[OF anillo_ciclo[OF assms] a(2)]
    by (intro exI[of _ a]) (simp add: siguiente_cancion_def esta_vacia_def Let_def)
qed

lemma anillo_anterior:
  assumes "anillo s ns" "ns \<noteq> []"
  shows "\<exists>a. actual s = Some a \<and> a \<in> set ns \<and> anterior (nodos s ! a) \<in> set ns \<and>
     siguiente (nodos s ! anterior (nodos s ! a)) = a \<and>
     cancion_anterior s =
       Inr (Some (anterior (nodos s ! a)), s\<lparr>actual := Some (anterior (nodos s ! a))\<rparr>)"
proof -
  note D = anillo_ConsD[OF assms]
  from D(2) obtain a where a: "actual s = Some a" "a \<in> set ns" by auto
  have "tamanio s \<noteq> 0" using D(7) assms(2) by simp
  then show ?thesis
    using a ciclo_en[OF anillo_ciclo[OF assms] a(2)]
    by (intro exI[of _ a]) (simp add: cancion_anterior_def esta_vacia_def Let_def)
qed

lemma anillo_agregar:
  fixes t a d r
  assumes "anillo s ns"
  shows "\<exists>s'. agregar_cancion t a d r s = Inr (length (nodos s), s') \<and>
     anillo s' (ns @ [length (nodos s)])"
proof (cases "ns = []")
  case True
  then show ?thesis
    using assms agregar_vacia[of s t a d r] anillo_agregar_vacia[of s t a d r] by simp
next
  case False
  then show ?thesis
    using agregar_no_vacia[OF assms False, of t a d r]
      anillo_agregar_no_vacia[OF assms False, of t a d r] by simp
qed

lemma esta_vacia_anillo: "anillo s ns \<Longrightarrow> esta_vacia s \<longleftrightarrow> ns = []"
  by (auto simp: anillo_def esta_vacia_def)

lemma paso_anillo:
  assumes "anillo s ns"
  shows "\<exists>s' ns'. paso c s = Some (Inr s') \<and> anillo s' ns'"
proof (cases c)
  case (Agregar t a d r)
  then show ?thesis using anillo_agregar[OF assms, of t a d r] by auto
next
  case Eliminar
  show ?thesis
  proof (cases "ns = []")
    case True
    then show ?thesis using assms Eliminar esta_vacia_anillo[OF assms]
      by (auto simp: eliminar_cancion_actual_def)
  next
    case False
    from anillo_eliminar[OF assms False] obtain a s' where
      "eliminar_cancion_actual s = Inr (Some a, s')" "anillo s' (remove1 a ns)" by blast
    then show ?thesis using Eliminar by auto
  qed
next
  case Siguiente
  show ?thesis
  proof (cases "ns = []")
    case True
    then show ?thesis using assms Siguiente esta_vacia_anillo[OF assms]
      by (auto simp: siguiente_cancion_def)
  next
    case False
    from anillo_siguiente[OF assms False] obtain a where
      a: "siguiente (nodos s ! a) \<in> set ns"
      "siguiente_cancion s =
        Inr (Some (siguiente (nodos s ! a)), s\<lparr>actual := Some (siguiente (nodos s ! a))\<rparr>)" by blast
    show ?thesis using Siguiente a(2) anillo_actual[OF assms a(1)] by auto
  qed
next
  case Anterior
  show ?thesis
  proof (cases "ns = []")
    case True
    then show ?thesis using assms Anterior esta_vacia_anillo[OF assms]
      by (auto simp: cancion_anterior_def)
  next
    case False
    from anillo_anterior[OF assms False] obtain a where
      a: "anterior (nodos s ! a) \<in> set ns"
      "cancion_anterior s =
        Inr (Some (anterior (nodos s ! a)), s\<lparr>actual := Some (anterior (nodos s ! a))\<rparr>)" by blast
    show ?thesis using Anterior a(2) anillo_actual[OF assms a(1)] by auto
  qed
next
  case Actual
  then show ?thesis using assms by auto
next
  case Contar
  then show ?thesis using assms by auto
next
  case Todas
  then show ?thesis using assms anillo_todas[OF assms] by auto
qed

lemma correr_anillo:
  "anillo s ns \<Longrightarrow> \<exists>s' ns'. correr cs s = Some (Inr s') \<and> anillo s' ns'"
proof (induction cs arbitrary: s ns)
  case Nil
  then show ?case by auto
next
  case (Cons c cs)
  from paso_anillo[OF Cons.prems, of c] obtain s1 ns1 where
    s1: "paso c s = Some (Inr s1)" "anillo s1 ns1" by blast
  from Cons.IH[OF s1(2)] show ?case by (simp add: s1(1))
qed

lemma anillo_vacia: "anillo vacia []"
  by (simp add: anillo_def vacia_def)

lemma anillo_nth:
  assumes "anillo s ns" "i < length ns"
  shows "siguiente (nodos s ! (ns ! i)) = ns ! (Suc i mod length ns)"
    "anterior (nodos s ! (ns ! (Suc i mod length ns))) = ns ! i"
proof -
  have ne: "ns \<noteq> []" using assms(2) by auto
  note D = anillo_ConsD[OF assms(1) ne]
  have "enlace (nodos s) (ns ! i) (ns ! (Suc i mod length ns))"
  proof (cases "Suc i < length ns")
    case True
    then show ?thesis using enlazados_nth[OF D(3) True] by simp
  next
    case False
    then have "Suc i = length ns" using assms(2) by simp
    then have "i = length ns - 1" by simp
    then have "ns ! i = last ns" "Suc i mod length ns = 0"
      using ne by (simp_all add: last_conv_nth)
    then show ?thesis using D(4) ne by (simp add: hd_conv_nth)
  qed
  then show "siguiente (nodos s ! (ns ! i)) = ns ! (Suc i mod length ns)"
    "anterior (nodos s ! (ns ! (Suc i mod length ns))) = ns ! i"
    by (simp_all add: enlace_def)
qed

lemma anillo_nth_anterior:
  assumes "anillo s ns" "i < length ns"
  shows "anterior (nodos s ! (ns ! i)) = ns ! ((i + (length ns - 1)) mod length ns)"
proof -
  define j where "j = (i + (length ns - 1)) mod length ns"
  have pos: "0 < length ns" using assms(2) by auto
  have j: "j < length ns" unfolding j_def by (rule mod_less_divisor[OF pos])
  have "Suc j mod length ns = i"
  proof (cases i)
    case 0
    then show ?thesis using assms(2) by (simp add: j_def)
  next
    case (Suc i')
    then have "i + (length ns - 1) = i' + length ns" using assms(2) by simp
    then have "j = i'" using assms(2) Suc by (simp add: j_def)
    then show ?thesis using Suc assms(2) by simp
  qed
  then show ?thesis using anillo_nth(2)[OF assms(1) j] by (simp add: j_def)
qed

lemma seguir_nth:
  "anillo s ns \<Longrightarrow> i < length ns \<Longrightarrow>
   seguir (nodos s) k (ns ! i) = ns ! ((i + k) mod length ns)"
proof (induction k arbitrary: i)
  case 0
  then show ?case by simp
next
  case (Suc k)
  have pos: "0 < length ns" using Suc.prems(2) by auto
  have "Suc i mod length ns < length ns" by (rule mod_less_divisor[OF pos])
  from Suc.IH[OF Suc.prems(1) this] show ?case
    using anillo_nth(1)[OF Suc.prems] by (simp add: mod_add_left_eq)
qed

lemma actual_mismo: "actual s = c \<Longrightarrow> s\<lparr>actual := c\<rparr> = s"
  by simp

lemma repetir_siguiente:
  "anillo s ns \<Longrightarrow> i < length ns \<Longrightarrow> actual s = Some (ns ! i) \<Longrightarrow>
   repetir k siguiente_cancion s = Inr (s\<lparr>actual := Some (ns ! ((i + k) mod length ns))\<rparr>)"
proof (induction k arbitrary: s i)
  case 0
  then show ?case by simp
next
  case (Suc k)
  define i1 where "i1 = Suc i mod length ns"
  define s1 where "s1 = s\<lparr>actual := Some (ns ! i1)\<rparr>"
  have pos: "0 < length ns" using Suc.prems(2) by auto
  have i1: "i1 < length ns" unfolding i1_def by (rule mod_less_divisor[OF pos])
  have t: "tamanio s \<noteq> 0" using Suc.prems(1,2) by (auto simp: anillo_def)
  have st: "siguiente_cancion s = Inr (Some (ns ! i1), s1)"
    using t Suc.prems(3) anillo_nth(1)[OF Suc.prems(1,2)]
    by (simp add: siguiente_cancion_def esta_vacia_def Let_def s1_def i1_def)
  have "anillo s1 ns" unfolding s1_def using i1 by (intro anillo_actual[OF Suc.prems(1)]) simp
  from Suc.IH[OF this i1] have "repetir k siguiente_cancion s1 =
      Inr (s1\<lparr>actual := Some (ns ! ((i1 + k) mod length ns))\<rparr>)"
    by (simp add: s1_def)
  moreover have "(i1 + k) mod length ns = (i + Suc k) mod length ns"
    by (simp add: i1_def mod_add_left_eq)
  ultimately show ?case by (simp add: st s1_def)
qed

lemma repetir_anterior:
  "anillo s ns \<Longrightarrow> i < length ns \<Longrightarrow> actual s = Some (ns ! i) \<Longrightarrow>
   repetir k cancion_anterior s =
     Inr (s\<lparr>actual := Some (ns ! ((i + k * (length ns - 1)) mod length ns))\<rparr>)"
proof (induction k arbitrary: s i)
  case 0
  then show ?case by simp
next
  case (Suc k)
  define i1 where "i1 = (i + (length ns - 1)) mod length ns"
  define s1 where "s1 = s\<lparr>actual := Some (ns ! i1)\<rparr>"
  have pos: "0 < length ns" using Suc.prems(2) by auto
  have i1: "i1 < length ns" unfolding i1_def by (rule mod_less_divisor[OF pos])
  have t: "tamanio s \<noteq> 0" using Suc.prems(1,2) by (auto simp: anillo_def)
  have st: "cancion_anterior s = Inr (Some (ns ! i1), s1)"
    using t Suc.prems(3) anillo_nth_anterior[OF Suc.prems(1,2)]
    by (simp add: cancion_anterior_def esta_vacia_def Let_def s1_def i1_def)
  have "anillo s1 ns" unfolding s1_def using i1 by (intro anillo_actual[OF Suc.prems(1)]) simp
  from Suc.IH[OF this i1] have "repetir k cancion_anterior s1 =
      Inr (s1\<lparr>actual := Some (ns ! ((i1 + k * (length ns - 1)) mod length ns))\<rparr>)"
    by (simp add: s1_def)
  moreover have "(i1 + k * (length ns - 1)) mod length ns = (i + Suc k * (length ns - 1)) mod length ns"
  proof -
    have "(i1 + k * (length ns - 1)) mod length ns =
          ((i + (length ns - 1)) + k * (length ns - 1)) mod length ns"
      unfolding i1_def by (rule mod_add_left_eq)
    also have "(i + (length ns - 1)) + k * (length ns - 1) = i + Suc k * (length ns - 1)"
      by simp
    finally show ?thesis .
  qed
  ultimately show ?case by (simp add: st s1_def)
qed

section \<open>The claims\<close>

text \<open>
  Claim C5. On an empty playlist \<^verbatim>\<open>eliminar_cancion_actual\<close>, \<^verbatim>\<open>siguiente_cancion\<close> and
  \<^verbatim>\<open>cancion_anterior\<close> return \<^verbatim>\<open>None\<close> and \<^verbatim>\<open>obtener_todas_las_canciones\<close> returns the
  empty list, and each call leaves the state as it was: the state returned is the state
  given (the traversal assigns to nothing).
\<close>

theorem vacia_sin_efecto:
  assumes "esta_vacia s"
  shows "eliminar_cancion_actual s = Inr (None, s) \<and>
         siguiente_cancion s = Inr (None, s) \<and>
         cancion_anterior s = Inr (None, s) \<and>
         obtener_todas_las_canciones s = Some (Inr [])"
  using assms
  by (simp add: eliminar_cancion_actual_def siguiente_cancion_def cancion_anterior_def
      obtener_todas_las_canciones_def)

theorem vacia_sin_efecto_witness:
  "esta_vacia vacia \<and> actual vacia = None \<and> primero vacia = None \<and> tamanio vacia = 0 \<and>
   eliminar_cancion_actual vacia = Inr (None, vacia) \<and>
   siguiente_cancion vacia = Inr (None, vacia) \<and>
   cancion_anterior vacia = Inr (None, vacia) \<and>
   obtener_todas_las_canciones vacia = Some (Inr [])"
proof -
  have e: "esta_vacia vacia" by (simp add: esta_vacia_def vacia_def)
  show ?thesis using e vacia_sin_efecto[OF e] by (simp add: vacia_def)
qed

subsection \<open>States reached by calls from the empty playlist\<close>

lemma alcanzable_anillo: "\<exists>s ns. correr cs vacia = Some (Inr s) \<and> anillo s ns"
  using correr_anillo[OF anillo_vacia] by blast

lemma anillo_vacio_iff:
  assumes "anillo s ns"
  shows "tamanio s = 0 \<longleftrightarrow> ns = []" "actual s = None \<longleftrightarrow> ns = []" "primero s = None \<longleftrightarrow> ns = []"
  using assms by (auto simp: anillo_def split: list.splits option.splits)

lemma anillo_propiedad:
  assumes "anillo s ns" "n \<in> set ns"
  shows "anterior (nodos s ! siguiente (nodos s ! n)) = n"
    "siguiente (nodos s ! anterior (nodos s ! n)) = n"
    "siguiente (nodos s ! n) \<in> set ns" "anterior (nodos s ! n) \<in> set ns"
    "seguir (nodos s) (nat (len s)) n = n"
proof -
  have ne: "ns \<noteq> []" using assms(2) by auto
  from ciclo_en[OF anillo_ciclo[OF assms(1) ne] assms(2)]
  show "anterior (nodos s ! siguiente (nodos s ! n)) = n"
    "siguiente (nodos s ! anterior (nodos s ! n)) = n"
    "siguiente (nodos s ! n) \<in> set ns" "anterior (nodos s ! n) \<in> set ns"
    by simp_all
  from assms(2) obtain i where i: "i < length ns" "ns ! i = n" by (auto simp: in_set_conv_nth)
  have "nat (len s) = length ns" using assms(1) by (simp add: anillo_def len_def)
  then show "seguir (nodos s) (nat (len s)) n = n"
    using seguir_nth[OF assms(1) i(1), of "length ns"] i by simp
qed

text \<open>
  Claim C3. After any sequence of calls of the seven methods from the empty playlist,
  none of which raises or fails to return, every node \<open>n\<close> in the ring (the nodes that
  \<^verbatim>\<open>obtener_todas_las_canciones\<close> lists; they are closed under \<^verbatim>\<open>siguiente\<close> and
  \<^verbatim>\<open>anterior\<close>) satisfies \<^verbatim>\<open>n.siguiente.anterior == n\<close> and \<^verbatim>\<open>n.anterior.siguiente == n\<close>,
  and following \<^verbatim>\<open>siguiente\<close> \<^verbatim>\<open>len\<close> times from \<open>n\<close> leads back to \<open>n\<close>.
\<close>

theorem anillo_invariante:
  "\<exists>s ns. correr cs vacia = Some (Inr s) \<and> obtener_todas_las_canciones s = Some (Inr ns) \<and>
     (\<forall>n\<in>set ns.
        anterior (nodos s ! siguiente (nodos s ! n)) = n \<and>
        siguiente (nodos s ! anterior (nodos s ! n)) = n \<and>
        siguiente (nodos s ! n) \<in> set ns \<and> anterior (nodos s ! n) \<in> set ns \<and>
        seguir (nodos s) (nat (len s)) n = n)"
proof -
  from alcanzable_anillo[of cs] obtain s ns where
    s: "correr cs vacia = Some (Inr s)" "anillo s ns" by blast
  show ?thesis
    using s(1) anillo_todas[OF s(2)] anillo_propiedad[OF s(2)] by blast
qed



theorem anillo_invariante_witness:
  "correr ejemplo_llamadas vacia =
     Some (Inr \<lparr>nodos =
        [\<lparr>titulo = ''A'', artista = ''x'', duracion = 125, ruta = ''a.mp3'', anterior = 2, siguiente = 2\<rparr>,
         \<lparr>titulo = ''B'', artista = ''x'', duracion = 200, ruta = ''b.mp3'', anterior = 0, siguiente = 2\<rparr>,
         \<lparr>titulo = ''C'', artista = ''x'', duracion = 61, ruta = ''c.mp3'', anterior = 0, siguiente = 0\<rparr>],
      actual = Some 0, primero = Some 0, tamanio = 2\<rparr>) \<and>
   (\<exists>s. correr ejemplo_llamadas vacia = Some (Inr s) \<and>
        obtener_todas_las_canciones s = Some (Inr [0, 2]) \<and>
        anterior (nodos s ! siguiente (nodos s ! 2)) = 2 \<and>
        siguiente (nodos s ! anterior (nodos s ! 2)) = 2 \<and>
        seguir (nodos s) (nat (len s)) 2 = 2)"
proof -
  define s0 where "s0 = \<lparr>nodos =
        [\<lparr>titulo = ''A'', artista = ''x'', duracion = 125, ruta = ''a.mp3'', anterior = 2, siguiente = 2\<rparr>,
         \<lparr>titulo = ''B'', artista = ''x'', duracion = 200, ruta = ''b.mp3'', anterior = 0, siguiente = 2\<rparr>,
         \<lparr>titulo = ''C'', artista = ''x'', duracion = 61, ruta = ''c.mp3'', anterior = 0, siguiente = 0\<rparr>],
      actual = Some 0, primero = Some 0, tamanio = 2\<rparr>"
  have e: "correr ejemplo_llamadas vacia = Some (Inr s0)" unfolding s0_def by code_simp
  have t: "obtener_todas_las_canciones s0 = Some (Inr [0, 2])" unfolding s0_def by code_simp
  from anillo_invariante[of ejemplo_llamadas] obtain s ns where
    s: "correr ejemplo_llamadas vacia = Some (Inr s)" "obtener_todas_las_canciones s = Some (Inr ns)"
     "\<forall>n\<in>set ns.
        anterior (nodos s ! siguiente (nodos s ! n)) = n \<and>
        siguiente (nodos s ! anterior (nodos s ! n)) = n \<and>
        siguiente (nodos s ! n) \<in> set ns \<and> anterior (nodos s ! n) \<in> set ns \<and>
        seguir (nodos s) (nat (len s)) n = n" by blast
  from s(1) e have "s = s0" by simp
  with s(2) t have "ns = [0, 2]" by simp
  with s(3) have "anterior (nodos s ! siguiente (nodos s ! 2)) = 2 \<and>
        siguiente (nodos s ! anterior (nodos s ! 2)) = 2 \<and>
        seguir (nodos s) (nat (len s)) 2 = 2" by simp
  with s(1,2) \<open>ns = [0, 2]\<close> e show ?thesis unfolding s0_def by blast
qed

text \<open>
  Claim C4. In every state reached by calls from the empty playlist, \<^verbatim>\<open>tamanio == 0\<close>
  holds exactly when \<^verbatim>\<open>actual\<close> is \<^verbatim>\<open>None\<close>, which holds exactly when \<^verbatim>\<open>primero\<close> is
  \<^verbatim>\<open>None\<close>.
\<close>

theorem vacio_equivalente:
  "\<exists>s. correr cs vacia = Some (Inr s) \<and>
       (tamanio s = 0 \<longleftrightarrow> actual s = None) \<and> (actual s = None \<longleftrightarrow> primero s = None)"
proof -
  from alcanzable_anillo[of cs] obtain s ns where
    s: "correr cs vacia = Some (Inr s)" "anillo s ns" by blast
  show ?thesis using s(1) anillo_vacio_iff[OF s(2)] by simp
qed

theorem vacio_equivalente_witness:
  "correr [Agregar ''A'' ''x'' 125 ''a.mp3'', Agregar ''B'' ''x'' 200 ''b.mp3'', Siguiente, Eliminar, Eliminar] vacia =
     Some (Inr \<lparr>nodos =
        [\<lparr>titulo = ''A'', artista = ''x'', duracion = 125, ruta = ''a.mp3'', anterior = 0, siguiente = 0\<rparr>,
         \<lparr>titulo = ''B'', artista = ''x'', duracion = 200, ruta = ''b.mp3'', anterior = 0, siguiente = 0\<rparr>],
      actual = None, primero = None, tamanio = 0\<rparr>) \<and>
   (\<exists>s. correr [Agregar ''A'' ''x'' 125 ''a.mp3'', Agregar ''B'' ''x'' 200 ''b.mp3'', Siguiente, Eliminar, Eliminar] vacia = Some (Inr s) \<and>
       (tamanio s = 0 \<longleftrightarrow> actual s = None) \<and> (actual s = None \<longleftrightarrow> primero s = None))"
proof
  show "correr [Agregar ''A'' ''x'' 125 ''a.mp3'', Agregar ''B'' ''x'' 200 ''b.mp3'', Siguiente, Eliminar, Eliminar] vacia =
     Some (Inr \<lparr>nodos =
        [\<lparr>titulo = ''A'', artista = ''x'', duracion = 125, ruta = ''a.mp3'', anterior = 0, siguiente = 0\<rparr>,
         \<lparr>titulo = ''B'', artista = ''x'', duracion = 200, ruta = ''b.mp3'', anterior = 0, siguiente = 0\<rparr>],
      actual = None, primero = None, tamanio = 0\<rparr>)"
    by code_simp
  show "\<exists>s. correr [Agregar ''A'' ''x'' 125 ''a.mp3'', Agregar ''B'' ''x'' 200 ''b.mp3'', Siguiente, Eliminar, Eliminar] vacia = Some (Inr s) \<and>
       (tamanio s = 0 \<longleftrightarrow> actual s = None) \<and> (actual s = None \<longleftrightarrow> primero s = None)"
    by (rule vacio_equivalente)
qed

subsection \<open>Appending\<close>

lemma datos_agregado:
  "datos (agregado t a d r s ns ! x) =
   datos ((nodos s @ [NodoCancion_init (length (nodos s)) t a d r]) ! x)"
  by (simp add: agregado_def Let_def)

lemma agregar_detalle:
  fixes t a d r
  assumes "anillo s ns"
  shows "\<exists>s'. agregar_cancion t a d r s = Inr (length (nodos s), s') \<and>
     anillo s' (ns @ [length (nodos s)]) \<and> length (nodos s') = Suc (length (nodos s)) \<and>
     datos (nodos s' ! length (nodos s)) = (t, a, d, r) \<and>
     (\<forall>x<length (nodos s). datos (nodos s' ! x) = datos (nodos s ! x))"
proof (cases "ns = []")
  case True
  then show ?thesis
    using assms agregar_vacia[of s t a d r] anillo_agregar_vacia[of s t a d r]
    by (simp add: nth_append datos_def NodoCancion_init_def)
next
  case False
  show ?thesis
    using agregar_no_vacia[OF assms False, of t a d r]
      anillo_agregar_no_vacia[OF assms False, of t a d r]
      agregado_props(1)[OF assms False, of t a d r]
    by (simp add: datos_agregado nth_append) (simp add: datos_def NodoCancion_init_def)
qed

lemma agregar_todas_anillo:
  "anillo s ns \<Longrightarrow>
   \<exists>s'. agregar_todas cs s = Inr ([length (nodos s)..<length (nodos s) + length cs], s') \<and>
     anillo s' (ns @ [length (nodos s)..<length (nodos s) + length cs]) \<and>
     length (nodos s') = length (nodos s) + length cs \<and>
     (\<forall>x<length (nodos s). datos (nodos s' ! x) = datos (nodos s ! x)) \<and>
     (\<forall>i<length cs. datos (nodos s' ! (length (nodos s) + i)) = cs ! i)"
proof (induction cs arbitrary: s ns)
  case Nil
  then show ?case by simp
next
  case (Cons c cs)
  obtain t a d r where c: "c = (t, a, d, r)" by (cases c) auto
  define k where "k = length (nodos s)"
  from agregar_detalle[OF Cons.prems, of t a d r] obtain s1 where
    s1: "agregar_cancion t a d r s = Inr (k, s1)" "anillo s1 (ns @ [k])"
      "length (nodos s1) = Suc k" "datos (nodos s1 ! k) = (t, a, d, r)"
      "\<forall>x<k. datos (nodos s1 ! x) = datos (nodos s ! x)"
    unfolding k_def by blast
  from Cons.IH[OF s1(2)] obtain s' where
    s': "agregar_todas cs s1 = Inr ([Suc k..<Suc k + length cs], s')"
      "anillo s' ((ns @ [k]) @ [Suc k..<Suc k + length cs])"
      "length (nodos s') = Suc k + length cs"
      "\<forall>x<Suc k. datos (nodos s' ! x) = datos (nodos s1 ! x)"
      "\<forall>i<length cs. datos (nodos s' ! (Suc k + i)) = cs ! i"
    unfolding s1(3) by blast
  have "k < k + length (c # cs)" by simp
  from upt_conv_Cons[OF this]
  have u: "[k..<k + length (c # cs)] = k # [Suc k..<Suc k + length cs]" by simp
  have 1: "agregar_todas (c # cs) s = Inr ([k..<k + length (c # cs)], s')"
    unfolding u by (simp add: c s1(1) s'(1))
  have 2: "anillo s' (ns @ [k..<k + length (c # cs)])"
    unfolding u using s'(2) by simp
  have 3: "length (nodos s') = k + length (c # cs)" using s'(3) by simp
  have 4: "\<forall>x<k. datos (nodos s' ! x) = datos (nodos s ! x)"
    using s'(4) s1(5) by simp
  have 5: "\<forall>i<length (c # cs). datos (nodos s' ! (k + i)) = (c # cs) ! i"
  proof (intro allI impI)
    fix i assume "i < length (c # cs)"
    then show "datos (nodos s' ! (k + i)) = (c # cs) ! i"
      using s'(4,5) s1(4) c by (cases i) auto
  qed
  show ?case using 1 2 3 4 5 unfolding k_def by blast
qed

text \<open>
  Claim C1. On every empty playlist, the new one as well as one emptied by removals
  (whose store still holds the removed nodes), and for every list of \<open>n\<close> tuples, \<open>n\<close>
  calls of \<^verbatim>\<open>agregar_cancion\<close> all return; afterwards \<^verbatim>\<open>len\<close> is \<open>n\<close> and
  \<^verbatim>\<open>obtener_todas_las_canciones\<close> returns exactly the \<open>n\<close> nodes the calls created,
  pairwise distinct, in the order of the calls, each carrying the metadata it was
  created with.
\<close>

theorem agregar_n:
  assumes "anillo s0 []"
  shows "\<exists>creados s. agregar_todas cs s0 = Inr (creados, s) \<and>
     len s = int (length cs) \<and>
     obtener_todas_las_canciones s = Some (Inr creados) \<and>
     length creados = length cs \<and> distinct creados \<and>
     map (\<lambda>n. datos (nodos s ! n)) creados = cs"
proof -
  define k where "k = length (nodos s0)"
  from agregar_todas_anillo[OF assms, of cs] obtain s where
    s: "agregar_todas cs s0 = Inr ([k..<k + length cs], s)" "anillo s [k..<k + length cs]"
      "\<forall>i<length cs. datos (nodos s ! (k + i)) = cs ! i"
    unfolding k_def by auto
  have "len s = int (length cs)" using s(2) by (simp add: anillo_def len_def)
  moreover have "map (\<lambda>n. datos (nodos s ! n)) [k..<k + length cs] = cs"
  proof (rule nth_equalityI)
    show "length (map (\<lambda>n. datos (nodos s ! n)) [k..<k + length cs]) = length cs" by simp
    fix i assume "i < length (map (\<lambda>n. datos (nodos s ! n)) [k..<k + length cs])"
    then show "map (\<lambda>n. datos (nodos s ! n)) [k..<k + length cs] ! i = cs ! i"
      using s(3) by simp
  qed
  ultimately show ?thesis using s(1) anillo_todas[OF s(2)] by auto
qed

theorem agregar_n_witness:
  "correr [Agregar ''Z'' ''w'' 9 ''z.mp3'', Eliminar] vacia = Some (Inr vaciada) \<and>
   vaciada \<noteq> vacia \<and> anillo vaciada [] \<and>
   (\<exists>s. agregar_todas [(''A'', ''x'', 125, ''a.mp3''), (''B'', ''x'', 200, ''b.mp3''),
                        (''C'', ''x'', 61, ''c.mp3'')] vaciada = Inr ([1, 2, 3], s) \<and>
        len s = 3 \<and> obtener_todas_las_canciones s = Some (Inr [1, 2, 3]) \<and>
        map (\<lambda>n. datos (nodos s ! n)) [1, 2, 3] =
          [(''A'', ''x'', 125, ''a.mp3''), (''B'', ''x'', 200, ''b.mp3''), (''C'', ''x'', 61, ''c.mp3'')]) \<and>
   anillo vacia [] \<and>
   agregar_todas [(''A'', ''x'', 125, ''a.mp3''), (''B'', ''x'', 200, ''b.mp3''),
                  (''C'', ''x'', 61, ''c.mp3'')] vacia = Inr ([0, 1, 2], tres_canciones) \<and>
   len tres_canciones = 3 \<and> obtener_todas_las_canciones tres_canciones = Some (Inr [0, 1, 2])"
proof -
  define cs where "cs = [(''A'', ''x'', 125 :: int, ''a.mp3''), (''B'', ''x'', 200, ''b.mp3''),
                         (''C'', ''x'', 61, ''c.mp3'')]"
  have r: "correr [Agregar ''Z'' ''w'' 9 ''z.mp3'', Eliminar] vacia = Some (Inr vaciada)"
    by code_simp
  have d: "vaciada \<noteq> vacia" by (simp add: vaciada_def vacia_def)
  have h: "anillo vaciada []" by code_simp
  have h0: "anillo vacia []" by code_simp
  have c: "map fst (case agregar_todas cs vaciada of Inl e \<Rightarrow> [] | Inr p \<Rightarrow> [p]) = [[1, 2, 3]]"
    unfolding cs_def by code_simp
  from agregar_n[OF h, of cs] obtain creados s where
    s: "agregar_todas cs vaciada = Inr (creados, s)" "len s = int (length cs)"
      "obtener_todas_las_canciones s = Some (Inr creados)"
      "map (\<lambda>n. datos (nodos s ! n)) creados = cs" by blast
  from c s(1) have cr: "creados = [1, 2, 3]" by simp
  have 1: "\<exists>s. agregar_todas cs vaciada = Inr ([1, 2, 3], s) \<and>
        len s = 3 \<and> obtener_todas_las_canciones s = Some (Inr [1, 2, 3]) \<and>
        map (\<lambda>n. datos (nodos s ! n)) [1, 2, 3] = cs"
    using s unfolding cr by (intro exI[of _ s]) (simp add: cs_def)
  have e: "agregar_todas cs vacia = Inr ([0, 1, 2], tres_canciones)"
    unfolding cs_def by code_simp
  from agregar_n[OF h0, of cs] have 2: "len tres_canciones = 3"
    "obtener_todas_las_canciones tres_canciones = Some (Inr [0, 1, 2])"
    unfolding e by (simp_all add: cs_def)
  show ?thesis using r d h h0 1 e 2 unfolding cs_def by blast
qed

subsection \<open>Removing the current node\<close>

lemma anillo_vecinos_en:
  assumes "anillo s ns" "a \<in> set ns" "length ns \<noteq> 1"
  shows "siguiente (nodos s ! a) \<in> set (remove1 a ns)" "anterior (nodos s ! a) \<in> set (remove1 a ns)"
proof -
  have ne: "ns \<noteq> []" using assms(2) by auto
  note D = anillo_ConsD[OF assms(1) ne]
  from assms(2) obtain pre post where ns: "ns = pre @ a # post" by (auto simp: in_set_conv_decomp)
  have nin: "a \<notin> set pre" using D(5) by (auto simp: ns)
  have rm: "remove1 a ns = pre @ post" using nin by (simp add: ns remove1_append)
  have pp: "pre @ post \<noteq> []" using assms(3) by (auto simp: ns)
  then have W: "post @ pre \<noteq> []" by auto
  have "hd (post @ pre) \<in> set (post @ pre)" "last (post @ pre) \<in> set (post @ pre)"
    using W by (rule hd_in_set, rule last_in_set)
  then show "siguiente (nodos s ! a) \<in> set (remove1 a ns)"
    "anterior (nodos s ! a) \<in> set (remove1 a ns)"
    using anillo_vecinos[OF assms(1)[unfolded ns] pp] unfolding rm by auto
qed

lemma empalmado_enlace:
  assumes "anterior (h ! a) < length h" "siguiente (h ! a) < length h"
  shows "siguiente (empalmado h a ! anterior (h ! a)) = siguiente (h ! a)"
    "anterior (empalmado h a ! siguiente (h ! a)) = anterior (h ! a)"
  using assms by (simp_all add: empalmado_def siguiente_set_siguiente anterior_set_anterior)

lemma empalmado_otro:
  "x \<noteq> anterior (h ! a) \<Longrightarrow> x \<noteq> siguiente (h ! a) \<Longrightarrow> empalmado h a ! x = h ! x"
  by (simp add: empalmado_def set_siguiente_otro set_anterior_otro)

text \<open>
  Claim C2. On every non-empty playlist \<^verbatim>\<open>eliminar_cancion_actual\<close> returns the node
  \<^verbatim>\<open>actual\<close> referenced and \<^verbatim>\<open>tamanio\<close> decreases by exactly 1. If the size was 1 the
  playlist becomes empty, with \<^verbatim>\<open>actual\<close> and \<^verbatim>\<open>primero\<close> both \<^verbatim>\<open>None\<close>. Otherwise the
  neighbours of the removed node are linked to each other, \<^verbatim>\<open>actual\<close> becomes the removed
  node's \<^verbatim>\<open>siguiente\<close>, and \<^verbatim>\<open>primero\<close> becomes the removed node's \<^verbatim>\<open>siguiente\<close> when the
  removed node was \<^verbatim>\<open>primero\<close> and is unchanged otherwise. In both cases the remaining
  nodes, in their old order, form the ring of the new state.
\<close>

theorem eliminar_no_vacia:
  assumes "anillo s ns" "ns \<noteq> []"
  shows "\<exists>a s'. actual s = Some a \<and> eliminar_cancion_actual s = Inr (Some a, s') \<and>
     len s' = len s - 1 \<and> anillo s' (remove1 a ns) \<and>
     (if len s = 1 then esta_vacia s' \<and> actual s' = None \<and> primero s' = None
      else siguiente (nodos s' ! anterior (nodos s ! a)) = siguiente (nodos s ! a) \<and>
           anterior (nodos s' ! siguiente (nodos s ! a)) = anterior (nodos s ! a) \<and>
           actual s' = Some (siguiente (nodos s ! a)) \<and>
           primero s' = (if primero s = Some a then Some (siguiente (nodos s ! a)) else primero s))"
proof -
  note D = anillo_ConsD[OF assms]
  from anillo_eliminar[OF assms] obtain a where
    a: "actual s = Some a" "a \<in> set ns"
    and e: "eliminar_cancion_actual s =
       Inr (Some a,
            if length ns = 1 then s\<lparr>actual := None, primero := None, tamanio := 0\<rparr>
            else s\<lparr>nodos := empalmado (nodos s) a, actual := Some (siguiente (nodos s ! a)),
                   primero := (if primero s = Some a then Some (siguiente (nodos s ! a)) else primero s),
                   tamanio := tamanio s - 1\<rparr>)"
    and i: "anillo (if length ns = 1 then s\<lparr>actual := None, primero := None, tamanio := 0\<rparr>
            else s\<lparr>nodos := empalmado (nodos s) a, actual := Some (siguiente (nodos s ! a)),
                   primero := (if primero s = Some a then Some (siguiente (nodos s ! a)) else primero s),
                   tamanio := tamanio s - 1\<rparr>) (remove1 a ns)"
    by blast
  have l: "len s = 1 \<longleftrightarrow> length ns = 1" using D(7) by (simp add: len_def)
  show ?thesis
  proof (cases "length ns = 1")
    case True
    then show ?thesis using a e i l D(7)
      by (intro exI[of _ a] exI[of _ "s\<lparr>actual := None, primero := None, tamanio := 0\<rparr>"])
        (simp add: len_def esta_vacia_def)
  next
    case False
    from ciclo_en[OF anillo_ciclo[OF assms] a(2)] D(6)
    have "anterior (nodos s ! a) < length (nodos s)" "siguiente (nodos s ! a) < length (nodos s)"
      by auto
    note E = empalmado_enlace[OF this]
    show ?thesis using a e i l False E
      by (intro exI[of _ a] exI[of _ "s\<lparr>nodos := empalmado (nodos s) a,
                   actual := Some (siguiente (nodos s ! a)),
                   primero := (if primero s = Some a then Some (siguiente (nodos s ! a)) else primero s),
                   tamanio := tamanio s - 1\<rparr>"])
        (simp add: len_def)
  qed
qed

theorem eliminar_no_vacia_witness:
  "anillo tres_canciones [0, 1, 2] \<and>
   eliminar_cancion_actual tres_canciones =
     Inr (Some 0,
       \<lparr>nodos =
        [\<lparr>titulo = ''A'', artista = ''x'', duracion = 125, ruta = ''a.mp3'', anterior = 2, siguiente = 1\<rparr>,
         \<lparr>titulo = ''B'', artista = ''x'', duracion = 200, ruta = ''b.mp3'', anterior = 2, siguiente = 2\<rparr>,
         \<lparr>titulo = ''C'', artista = ''x'', duracion = 61, ruta = ''c.mp3'', anterior = 1, siguiente = 1\<rparr>],
        actual = Some 1, primero = Some 1, tamanio = 2\<rparr>) \<and>
   (\<exists>a s'. actual tres_canciones = Some a \<and>
      eliminar_cancion_actual tres_canciones = Inr (Some a, s') \<and> len s' = 2 \<and>
      anillo s' (remove1 a [0, 1, 2]) \<and> actual s' = Some (siguiente (nodos tres_canciones ! a)))"
proof -
  have h: "anillo tres_canciones [0, 1, 2]" by code_simp
  have n: "[0, 1, 2] \<noteq> ([] :: nat list)" by simp
  have e: "eliminar_cancion_actual tres_canciones =
     Inr (Some 0,
       \<lparr>nodos =
        [\<lparr>titulo = ''A'', artista = ''x'', duracion = 125, ruta = ''a.mp3'', anterior = 2, siguiente = 1\<rparr>,
         \<lparr>titulo = ''B'', artista = ''x'', duracion = 200, ruta = ''b.mp3'', anterior = 2, siguiente = 2\<rparr>,
         \<lparr>titulo = ''C'', artista = ''x'', duracion = 61, ruta = ''c.mp3'', anterior = 1, siguiente = 1\<rparr>],
        actual = Some 1, primero = Some 1, tamanio = 2\<rparr>)" by code_simp
  have l: "len tres_canciones = 3" by code_simp
  from eliminar_no_vacia[OF h n] l have
    "\<exists>a s'. actual tres_canciones = Some a \<and>
      eliminar_cancion_actual tres_canciones = Inr (Some a, s') \<and> len s' = 2 \<and>
      anillo s' (remove1 a [0, 1, 2]) \<and> actual s' = Some (siguiente (nodos tres_canciones ! a))"
    by (simp only: l) auto
  with h e show ?thesis by blast
qed

text \<open>
  Claim C10. \<^verbatim>\<open>eliminar_cancion_actual\<close> leaves the object of the removed node as it was:
  its metadata and its own \<^verbatim>\<open>siguiente\<close> and \<^verbatim>\<open>anterior\<close> are unchanged. When the playlist
  had more than one node these two references therefore still designate the former
  neighbours, which are nodes of the remaining ring, and not the removed node itself.
\<close>

theorem eliminar_no_muta:
  assumes "anillo s ns" "ns \<noteq> []"
  shows "\<exists>a s'. actual s = Some a \<and> eliminar_cancion_actual s = Inr (Some a, s') \<and>
     nodos s' ! a = nodos s ! a \<and>
     (len s \<noteq> 1 \<longrightarrow>
        anillo s' (remove1 a ns) \<and> a \<notin> set (remove1 a ns) \<and>
        siguiente (nodos s' ! a) \<in> set (remove1 a ns) \<and>
        anterior (nodos s' ! a) \<in> set (remove1 a ns))"
proof -
  note D = anillo_ConsD[OF assms]
  from anillo_eliminar[OF assms] obtain a where
    a: "actual s = Some a" "a \<in> set ns"
    and e: "eliminar_cancion_actual s =
       Inr (Some a,
            if length ns = 1 then s\<lparr>actual := None, primero := None, tamanio := 0\<rparr>
            else s\<lparr>nodos := empalmado (nodos s) a, actual := Some (siguiente (nodos s ! a)),
                   primero := (if primero s = Some a then Some (siguiente (nodos s ! a)) else primero s),
                   tamanio := tamanio s - 1\<rparr>)"
    and i: "anillo (if length ns = 1 then s\<lparr>actual := None, primero := None, tamanio := 0\<rparr>
            else s\<lparr>nodos := empalmado (nodos s) a, actual := Some (siguiente (nodos s ! a)),
                   primero := (if primero s = Some a then Some (siguiente (nodos s ! a)) else primero s),
                   tamanio := tamanio s - 1\<rparr>) (remove1 a ns)"
    by blast
  have l: "len s = 1 \<longleftrightarrow> length ns = 1" using D(7) by (simp add: len_def)
  have na: "a \<notin> set (remove1 a ns)" using D(5) by simp
  show ?thesis
  proof (cases "length ns = 1")
    case True
    then show ?thesis using a e l
      by (intro exI[of _ a] exI[of _ "s\<lparr>actual := None, primero := None, tamanio := 0\<rparr>"]) simp
  next
    case False
    note V = anillo_vecinos_en[OF assms(1) a(2) False]
    from V na have "a \<noteq> anterior (nodos s ! a)" "a \<noteq> siguiente (nodos s ! a)" by auto
    from empalmado_otro[OF this] have same: "empalmado (nodos s) a ! a = nodos s ! a" .
    show ?thesis using a e i l False V na same
      by (intro exI[of _ a] exI[of _ "s\<lparr>nodos := empalmado (nodos s) a,
                   actual := Some (siguiente (nodos s ! a)),
                   primero := (if primero s = Some a then Some (siguiente (nodos s ! a)) else primero s),
                   tamanio := tamanio s - 1\<rparr>"])
        simp
  qed
qed

theorem eliminar_no_muta_witness:
  "anillo tres_canciones [0, 1, 2] \<and> len tres_canciones \<noteq> 1 \<and>
   (\<exists>s'. eliminar_cancion_actual tres_canciones = Inr (Some 0, s') \<and>
      nodos s' ! 0 = nodos tres_canciones ! 0 \<and>
      siguiente (nodos s' ! 0) = 1 \<and> anterior (nodos s' ! 0) = 2 \<and> anillo s' [1, 2])"
proof -
  have h: "anillo tres_canciones [0, 1, 2]" by code_simp
  have n: "[0, 1, 2] \<noteq> ([] :: nat list)" by simp
  have l: "len tres_canciones \<noteq> 1" by code_simp
  have c: "actual tres_canciones = Some 0" "nodos tres_canciones ! 0 =
     \<lparr>titulo = ''A'', artista = ''x'', duracion = 125, ruta = ''a.mp3'', anterior = 2, siguiente = 1\<rparr>"
    by (simp_all add: tres_canciones_def)
  from eliminar_no_muta[OF h n] l c have
    "\<exists>s'. eliminar_cancion_actual tres_canciones = Inr (Some 0, s') \<and>
      nodos s' ! 0 = nodos tres_canciones ! 0 \<and>
      siguiente (nodos s' ! 0) = 1 \<and> anterior (nodos s' ! 0) = 2 \<and> anillo s' [1, 2]"
    by auto
  with h l show ?thesis by blast
qed

subsection \<open>Appending and the cursor\<close>

lemma agregar_sin_actual:
  "\<not> esta_vacia s \<Longrightarrow> agregar_cancion t a d r s = Inr (n, s') \<Longrightarrow>
   agregar_cancion t a d r (s\<lparr>actual := c\<rparr>) = Inr (n, s'\<lparr>actual := c\<rparr>)"
  by (auto simp: agregar_cancion_def esta_vacia_def Let_def split: option.splits)

text \<open>
  Claim C6. On every non-empty playlist \<^verbatim>\<open>agregar_cancion\<close> leaves \<^verbatim>\<open>actual\<close> (and
  \<^verbatim>\<open>primero\<close>) unchanged, and its result does not depend on \<^verbatim>\<open>actual\<close>: with any other
  value \<open>c\<close> of \<^verbatim>\<open>actual\<close> the call returns the same node and the same state, except that
  \<^verbatim>\<open>actual\<close> is \<open>c\<close>. On the empty playlist the new, self-linked node becomes both
  \<^verbatim>\<open>actual\<close> and \<^verbatim>\<open>primero\<close>.
\<close>

theorem agregar_cursor:
  fixes t a d r
  assumes "anillo s ns"
  shows "\<exists>n s'. agregar_cancion t a d r s = Inr (n, s') \<and>
     (if ns = [] then
        actual s' = Some n \<and> primero s' = Some n \<and>
        siguiente (nodos s' ! n) = n \<and> anterior (nodos s' ! n) = n
      else
        actual s' = actual s \<and> primero s' = primero s \<and>
        (\<forall>c. agregar_cancion t a d r (s\<lparr>actual := c\<rparr>) = Inr (n, s'\<lparr>actual := c\<rparr>)))"
proof (cases "ns = []")
  case True
  then show ?thesis
    using assms agregar_vacia[of s t a d r]
    by (simp add: NodoCancion_init_def)
next
  case False
  have v: "\<not> esta_vacia s" using esta_vacia_anillo[OF assms] False by simp
  note e = agregar_no_vacia[OF assms False, of t a d r]
  show ?thesis
    using False e agregar_sin_actual[OF v e] by simp
qed

theorem agregar_cursor_witness:
  "anillo (tres_canciones\<lparr>actual := Some 2\<rparr>) [0, 1, 2] \<and>
   (\<exists>s'. agregar_cancion ''D'' ''y'' 7 ''d.mp3'' (tres_canciones\<lparr>actual := Some 2\<rparr>) = Inr (3, s') \<and>
      actual s' = Some 2 \<and> primero s' = Some 0 \<and>
      agregar_cancion ''D'' ''y'' 7 ''d.mp3'' tres_canciones = Inr (3, s'\<lparr>actual := Some 0\<rparr>))"
proof -
  have h: "anillo (tres_canciones\<lparr>actual := Some 2\<rparr>) [0, 1, 2]" by code_simp
  have n: "length (nodos tres_canciones) = 3" "tres_canciones\<lparr>actual := Some 0\<rparr> = tres_canciones"
    by (simp_all add: tres_canciones_def)
  from agregar_cursor[OF h, of "''D''" "''y''" 7 "''d.mp3''"] obtain k s' where
    k: "agregar_cancion ''D'' ''y'' 7 ''d.mp3'' (tres_canciones\<lparr>actual := Some 2\<rparr>) = Inr (k, s')"
      "actual s' = Some 2" "primero s' = primero tres_canciones"
      "\<forall>c. agregar_cancion ''D'' ''y'' 7 ''d.mp3'' (tres_canciones\<lparr>actual := Some 2, actual := c\<rparr>) =
           Inr (k, s'\<lparr>actual := c\<rparr>)"
    by auto
  have "agregar_cancion ''D'' ''y'' 7 ''d.mp3'' tres_canciones = Inr (k, s'\<lparr>actual := Some 0\<rparr>)"
    using k(4)[rule_format, of "Some 0"] n(2) by simp
  moreover have "k = 3"
    using k(1) by (simp add: agregar_cancion_def Let_def tres_canciones_def esta_vacia_def)
  moreover have "primero tres_canciones = Some 0" by (simp add: tres_canciones_def)
  ultimately show ?thesis using h k(1,2,3) by auto
qed

subsection \<open>Moving the cursor\<close>

text \<open>
  Claim C7. On every non-empty playlist \<^verbatim>\<open>siguiente_cancion\<close> followed by
  \<^verbatim>\<open>cancion_anterior\<close>, and \<^verbatim>\<open>cancion_anterior\<close> followed by \<^verbatim>\<open>siguiente_cancion\<close>, both
  return; the second call returns the node \<^verbatim>\<open>actual\<close> referenced before the two calls and
  leaves the state it was before them.
\<close>

theorem siguiente_anterior_identidad:
  assumes "anillo s ns" "ns \<noteq> []"
  shows "(\<exists>b s1. siguiente_cancion s = Inr (Some b, s1) \<and> cancion_anterior s1 = Inr (actual s, s)) \<and>
         (\<exists>b s1. cancion_anterior s = Inr (Some b, s1) \<and> siguiente_cancion s1 = Inr (actual s, s))"
proof
  have t: "tamanio s \<noteq> 0" using anillo_ConsD(7)[OF assms] assms(2) by simp
  from anillo_siguiente[OF assms] obtain a where
    a: "actual s = Some a" "anterior (nodos s ! siguiente (nodos s ! a)) = a"
      "siguiente_cancion s =
         Inr (Some (siguiente (nodos s ! a)), s\<lparr>actual := Some (siguiente (nodos s ! a))\<rparr>)"
    by blast
  have "cancion_anterior (s\<lparr>actual := Some (siguiente (nodos s ! a))\<rparr>) = Inr (actual s, s)"
    using t a(1,2) by (simp add: cancion_anterior_def esta_vacia_def Let_def)
  with a(3) show "\<exists>b s1. siguiente_cancion s = Inr (Some b, s1) \<and> cancion_anterior s1 = Inr (actual s, s)"
    by blast
  from anillo_anterior[OF assms] obtain a' where
    a': "actual s = Some a'" "siguiente (nodos s ! anterior (nodos s ! a')) = a'"
      "cancion_anterior s =
         Inr (Some (anterior (nodos s ! a')), s\<lparr>actual := Some (anterior (nodos s ! a'))\<rparr>)"
    by blast
  have "siguiente_cancion (s\<lparr>actual := Some (anterior (nodos s ! a'))\<rparr>) = Inr (actual s, s)"
    using t a'(1,2) by (simp add: siguiente_cancion_def esta_vacia_def Let_def)
  with a'(3) show "\<exists>b s1. cancion_anterior s = Inr (Some b, s1) \<and> siguiente_cancion s1 = Inr (actual s, s)"
    by blast
qed

theorem siguiente_anterior_identidad_witness:
  "anillo tres_canciones [0, 1, 2] \<and>
   siguiente_cancion tres_canciones = Inr (Some 1, tres_canciones\<lparr>actual := Some 1\<rparr>) \<and>
   cancion_anterior (tres_canciones\<lparr>actual := Some 1\<rparr>) = Inr (Some 0, tres_canciones) \<and>
   (\<exists>b s1. cancion_anterior tres_canciones = Inr (Some b, s1) \<and>
      siguiente_cancion s1 = Inr (Some 0, tres_canciones))"
proof -
  have h: "anillo tres_canciones [0, 1, 2]" by code_simp
  have n: "[0, 1, 2] \<noteq> ([] :: nat list)" by simp
  have e: "siguiente_cancion tres_canciones = Inr (Some 1, tres_canciones\<lparr>actual := Some 1\<rparr>)"
    by code_simp
  have c: "actual tres_canciones = Some 0" by (simp add: tres_canciones_def)
  from siguiente_anterior_identidad[OF h n] e c h show ?thesis by auto
qed

text \<open>
  Claim C8. On every non-empty playlist, with \<^verbatim>\<open>actual\<close> at any node of the ring,
  \<^verbatim>\<open>len\<close> calls of \<^verbatim>\<open>siguiente_cancion\<close> all return and leave the state, so \<^verbatim>\<open>actual\<close>
  too, as it was before them; the same holds for \<^verbatim>\<open>len\<close> calls of \<^verbatim>\<open>cancion_anterior\<close>.
\<close>

theorem vuelta_completa:
  assumes "anillo s ns" "ns \<noteq> []"
  shows "repetir (nat (len s)) siguiente_cancion s = Inr s \<and>
         repetir (nat (len s)) cancion_anterior s = Inr s"
proof -
  note D = anillo_ConsD[OF assms]
  from D(2) obtain c where c: "actual s = Some c" "c \<in> set ns" by auto
  then obtain i where i: "i < length ns" "ns ! i = c" by (auto simp: in_set_conv_nth)
  have l: "nat (len s) = length ns" using D(7) by (simp add: len_def)
  have ai: "actual s = Some (ns ! i)" using c(1) i(2) by simp
  have "repetir (length ns) siguiente_cancion s = Inr s"
    using repetir_siguiente[OF assms(1) i(1) ai, of "length ns"] i c by simp
  moreover have "(i + length ns * (length ns - 1)) mod length ns = i" using i(1) by simp
  then have "repetir (length ns) cancion_anterior s = Inr s"
    using repetir_anterior[OF assms(1) i(1) ai, of "length ns"] i c by simp
  ultimately show ?thesis by (simp add: l)
qed

theorem vuelta_completa_witness:
  "anillo (tres_canciones\<lparr>actual := Some 1\<rparr>) [0, 1, 2] \<and>
   nat (len (tres_canciones\<lparr>actual := Some 1\<rparr>)) = 3 \<and>
   repetir 3 siguiente_cancion (tres_canciones\<lparr>actual := Some 1\<rparr>) = Inr (tres_canciones\<lparr>actual := Some 1\<rparr>) \<and>
   repetir 3 cancion_anterior (tres_canciones\<lparr>actual := Some 1\<rparr>) = Inr (tres_canciones\<lparr>actual := Some 1\<rparr>) \<and>
   repetir 1 siguiente_cancion (tres_canciones\<lparr>actual := Some 1\<rparr>) \<noteq> Inr (tres_canciones\<lparr>actual := Some 1\<rparr>)"
proof -
  have h: "anillo (tres_canciones\<lparr>actual := Some 1\<rparr>) [0, 1, 2]" by code_simp
  have n: "[0, 1, 2] \<noteq> ([] :: nat list)" by simp
  have l: "nat (len (tres_canciones\<lparr>actual := Some 1\<rparr>)) = 3" by code_simp
  have u: "repetir 1 siguiente_cancion (tres_canciones\<lparr>actual := Some 1\<rparr>) \<noteq>
     Inr (tres_canciones\<lparr>actual := Some 1\<rparr>)" by code_simp
  from vuelta_completa[OF h n] h l u show ?thesis by simp
qed

subsection \<open>The traversal\<close>

text \<open>
  Claim C9. On every playlist that satisfies the ring invariant, with nodes \<open>ns\<close>, the
  loop of \<^verbatim>\<open>obtener_todas_las_canciones\<close> terminates and the method returns exactly the
  \<^verbatim>\<open>len\<close> distinct nodes \<open>ns\<close>, starting at \<^verbatim>\<open>primero\<close>. Nothing is assumed about the
  metadata of the nodes: the loop's test compares references, and the example is a ring
  of two distinct nodes with the same title, artist, duration and path.
\<close>

theorem todas_termina:
  assumes "anillo s ns"
  shows "obtener_todas_las_canciones s = Some (Inr ns) \<and> int (length ns) = len s \<and>
         distinct ns \<and> (ns \<noteq> [] \<longrightarrow> primero s = Some (hd ns))"
  using assms anillo_todas[OF assms]
  by (cases ns) (auto simp: anillo_def len_def)

theorem todas_termina_witness:
  "anillo repetidas [0, 1] \<and> datos (nodos repetidas ! 0) = datos (nodos repetidas ! 1) \<and>
   obtener_todas_las_canciones repetidas = Some (Inr [0, 1]) \<and> len repetidas = 2 \<and>
   primero repetidas = Some 0"
proof -
  have h: "anillo repetidas [0, 1]" by code_simp
  have d: "datos (nodos repetidas ! 0) = datos (nodos repetidas ! 1)"
    by (simp add: repetidas_def datos_def)
  from todas_termina[OF h] h d show ?thesis by simp
qed

end
